theory Spec2Isabelle
  imports Main "HOL-Library.Sublist" "HOL-Library.Multiset"
begin

section \<open>Data model of backup.ts\<close>

text \<open>
  \<^verbatim>\<open>type BackupFrequency = '10min' | 'hourly' | 'daily' | 'weekly'\<close>.
  The string each value stands for is \<open>frequency_name\<close>.
\<close>

datatype BackupFrequency = TenMin | Hourly | Daily | Weekly

fun frequency_name :: "BackupFrequency \<Rightarrow> string" where
  "frequency_name TenMin = ''10min''"
| "frequency_name Hourly = ''hourly''"
| "frequency_name Daily = ''daily''"
| "frequency_name Weekly = ''weekly''"

record BackupInterval =
  frequency :: BackupFrequency
  milliseconds :: int

definition BACKUP_INTERVALS :: "BackupInterval list" where
  "BACKUP_INTERVALS =
     [\<lparr>frequency = Weekly, milliseconds = 7 * 24 * 60 * 60 * 1000\<rparr>,
      \<lparr>frequency = Daily, milliseconds = 24 * 60 * 60 * 1000\<rparr>,
      \<lparr>frequency = Hourly, milliseconds = 60 * 60 * 1000\<rparr>,
      \<lparr>frequency = TenMin, milliseconds = 10 * 60 * 1000\<rparr>]"

text \<open>
  An entry of \<open>response.Contents\<close>. Both fields are optional in the client's type, and the
  code guards both (\<open>LastModified?.getTime() || 0\<close>, \<open>if (!object.Key) continue\<close>).
  A \<open>Date\<close> is its \<open>getTime()\<close>: milliseconds since the epoch, an integer.
\<close>

record S3Object =
  Key :: "string option"
  LastModified :: "int option"

text \<open>The fields of \<open>env\<close> (env.ts) that backup.ts and index.ts read in the modelled paths.\<close>

record Env =
  AWS_S3_BUCKET :: string
  BUCKET_SUBFOLDER :: string
  BACKUP_FILE_PREFIX :: string
  SUPPORT_OBJECT_LOCK :: bool
  BACKUP_RETENTION_COUNT :: int
  RUN_ON_STARTUP :: bool
  SINGLE_SHOT_MODE :: bool

text \<open>What a rejected promise or a throw carries, reduced to the step that failed.\<close>

datatype error =
    PgDumpError
  | InvalidArchive
  | MD5Error
  | UploadError
  | ListError
  | DeleteError
  | UnlinkError
  | TypeError

text \<open>
  The calls the program makes to the outside, in the order it makes them, and three of its
  console lines (\<open>Triggering ... backup\<close>, \<open>Backup failed:\<close>, \<open>DB backup complete\<close>).
\<close>

datatype event =
    Exec_pg_dump string
  | Exec_gzip_check string
  | HashFile string
  | PutObject string string string "string option"
  | ListObjects string string
  | DeleteObject string string
  | Unlink string
  | Sleep int
  | Log_Triggering BackupFrequency
  | Log_BackupFailed error
  | Log_BackupComplete BackupFrequency

text \<open>
  The outside world is a parameter: a state \<open>'w\<close> and what each external call answers and
  does to it. \<open>clock\<close> is \<open>new Date().getTime()\<close>; \<open>s3_list\<close> answers \<open>None\<close> when
  \<open>client.send\<close> rejects and \<open>Some Contents\<close> otherwise (\<open>Contents\<close> itself optional);
  the calls answering \<open>bool\<close> answer \<open>False\<close> when they fail.
\<close>

record 'w ops =
  clock :: "'w \<Rightarrow> int"
  toISOString :: "int \<Rightarrow> string"
  tmpdir :: string
  hex_to_base64 :: "string \<Rightarrow> string"
  sleep_io :: "int \<Rightarrow> 'w \<Rightarrow> 'w"
  pg_dump_io :: "string \<Rightarrow> 'w \<Rightarrow> bool \<times> 'w"
  gzip_check_io :: "string \<Rightarrow> 'w \<Rightarrow> bool \<times> 'w"
  createMD5 :: "string \<Rightarrow> 'w \<Rightarrow> string option \<times> 'w"
  s3_put :: "string \<Rightarrow> string \<Rightarrow> string \<Rightarrow> string option \<Rightarrow> 'w \<Rightarrow> bool \<times> 'w"
  s3_list :: "string \<Rightarrow> string \<Rightarrow> 'w \<Rightarrow> S3Object list option option \<times> 'w"
  s3_delete :: "string \<Rightarrow> string \<Rightarrow> 'w \<Rightarrow> bool \<times> 'w"
  unlink_io :: "string \<Rightarrow> 'w \<Rightarrow> bool \<times> 'w"

text \<open>
  The program's state: the world, the module-level map \<open>lastBackupTimes\<close>
  (absent key = \<open>None\<close>), and the events so far.
\<close>

record 'w state =
  world :: 'w
  lastBackupTimes :: "BackupFrequency \<Rightarrow> int option"
  trace :: "event list"

type_synonym ('w, 'a) io = "'w state \<Rightarrow> (error + 'a) \<times> 'w state"

definition emit :: "event \<Rightarrow> 'w state \<Rightarrow> 'w state" where
  "emit ev s = s\<lparr>trace := trace s @ [ev]\<rparr>"

definition call :: "event \<Rightarrow> ('w \<Rightarrow> 'a \<times> 'w) \<Rightarrow> 'w state \<Rightarrow> 'a \<times> 'w state" where
  "call ev f s = (case f (world s) of (r, w') \<Rightarrow> (r, emit ev (s\<lparr>world := w'\<rparr>)))"

text \<open>\<open>await m; k\<close>: a rejection of \<open>m\<close> skips \<open>k\<close>.\<close>

definition andThen :: "('w, 'a) io \<Rightarrow> ('a \<Rightarrow> ('w, 'b) io) \<Rightarrow> ('w, 'b) io" where
  "andThen m k s = (case m s of (Inl e, s') \<Rightarrow> (Inl e, s') | (Inr x, s') \<Rightarrow> k x s')"

section \<open>Due-ness\<close>

text \<open>
  \<open>shouldRunBackup\<close>, with \<open>lastBackupTimes\<close> passed in. The non-null assertion on
  \<open>find\<close> would make \<open>.milliseconds\<close> throw a TypeError on \<open>undefined\<close>.
\<close>

definition shouldRunBackup ::
  "(BackupFrequency \<Rightarrow> int option) \<Rightarrow> BackupFrequency \<Rightarrow> int \<Rightarrow> error + bool" where
  "shouldRunBackup lbt f now =
     (case lbt f of
        None \<Rightarrow> Inr True
      | Some lastBackup \<Rightarrow>
          (case find (\<lambda>i. frequency i = f) BACKUP_INTERVALS of
             None \<Rightarrow> Inl TypeError
           | Some interval \<Rightarrow> Inr (now - lastBackup \<ge> milliseconds interval)))"

section \<open>The backup cycle\<close>

text \<open>\<open>s.replace(/[:.]+/g, '-')\<close>: every maximal run of colons and periods becomes one dash.\<close>

fun replace_runs :: "bool \<Rightarrow> string \<Rightarrow> string" where
  "replace_runs in_run [] = []"
| "replace_runs in_run (c # cs) =
     (if c = CHR '':'' \<or> c = CHR ''.''
      then (if in_run then replace_runs True cs else CHR ''-'' # replace_runs True cs)
      else c # replace_runs False cs)"

definition path_join :: "string \<Rightarrow> string \<Rightarrow> string" where
  "path_join dir name = dir @ ''/'' @ name"

definition deleteFile :: "'w ops \<Rightarrow> string \<Rightarrow> ('w, unit) io" where
  "deleteFile ops path s =
     (case call (Unlink path) (unlink_io ops path) s of
        (ok, s') \<Rightarrow> (if ok then Inr () else Inl UnlinkError, s'))"

text \<open>
  \<open>dumpToFile\<close>: the shell command, then the check that the archive decompresses to at
  least one byte. The command line itself is not modelled, only its outcome; the check is
  taken to answer (the \<open>execSync\<close> of the source returns).
\<close>

definition dumpToFile :: "'w ops \<Rightarrow> string \<Rightarrow> ('w, unit) io" where
  "dumpToFile ops filePath s =
     (case call (Exec_pg_dump filePath) (pg_dump_io ops filePath) s of
        (ok, s1) \<Rightarrow>
          if \<not> ok then (Inl PgDumpError, s1)
          else (case call (Exec_gzip_check filePath) (gzip_check_io ops filePath) s1 of
                  (isValidArchive, s2) \<Rightarrow>
                    if \<not> isValidArchive then (Inl InvalidArchive, s2) else (Inr (), s2)))"

text \<open>
  The sort key \<open>LastModified?.getTime() || 0\<close>, and \<open>Contents.sort((a, b) => key b - key a)\<close>:
  newest first, equal keys in listing order (the engine's sort is stable).
\<close>

definition lm_time :: "S3Object \<Rightarrow> int" where
  "lm_time obj = (case LastModified obj of None \<Rightarrow> 0 | Some t \<Rightarrow> t)"

definition sort_newest_first :: "S3Object list \<Rightarrow> S3Object list" where
  "sort_newest_first xs = sort_key (\<lambda>obj. - lm_time obj) xs"

text \<open>\<open>xs.slice(start)\<close>: a negative start counts from the end.\<close>

definition slice_from :: "int \<Rightarrow> 'a list \<Rightarrow> 'a list" where
  "slice_from start xs =
     (let len = int (length xs);
          k = (if start < 0 then max (len + start) 0 else min start len)
      in drop (nat k) xs)"

text \<open>The loop over \<open>objectsToDelete\<close>. There is no try/catch: a rejected delete ends it.\<close>

fun delete_each :: "'w ops \<Rightarrow> string \<Rightarrow> S3Object list \<Rightarrow> ('w, unit) io" where
  "delete_each ops bucket [] s = (Inr (), s)"
| "delete_each ops bucket (obj # rest) s =
     (case Key obj of
        None \<Rightarrow> delete_each ops bucket rest s
      | Some k \<Rightarrow>
          if k = [] then delete_each ops bucket rest s
          else (case call (DeleteObject bucket k) (s3_delete ops bucket k) s of
                  (ok, s') \<Rightarrow>
                    if ok then delete_each ops bucket rest s' else (Inl DeleteError, s')))"

definition objectsToDelete :: "Env \<Rightarrow> S3Object list \<Rightarrow> S3Object list" where
  "objectsToDelete env contents =
     slice_from (BACKUP_RETENTION_COUNT env) (sort_newest_first contents)"

definition cleanupOldBackups ::
  "'w ops \<Rightarrow> Env \<Rightarrow> string \<Rightarrow> string \<Rightarrow> BackupFrequency \<Rightarrow> ('w, unit) io" where
  "cleanupOldBackups ops env bucket pfx f s =
     (case call (ListObjects bucket (pfx @ frequency_name f @ ''/''))
             (s3_list ops bucket (pfx @ frequency_name f @ ''/'')) s of
        (None, s1) \<Rightarrow> (Inl ListError, s1)
      | (Some None, s1) \<Rightarrow> (Inr (), s1)
      | (Some (Some contents), s1) \<Rightarrow>
          delete_each ops bucket (objectsToDelete env contents) s1)"

text \<open>
  \<open>uploadToS3\<close>, in the order of the source: the key prefix (the subfolder and a slash,
  or nothing when \<open>env.BUCKET_SUBFOLDER\<close> is falsy, as the empty string is), the key
  (prefix, frequency, a slash, the file name), the optional hash, the upload, and then the
  cleanup of the same frequency. Nothing in it catches a rejection.
\<close>

definition bucket_prefix :: "Env \<Rightarrow> string" where
  "bucket_prefix env =
     (if BUCKET_SUBFOLDER env \<noteq> [] then BUCKET_SUBFOLDER env @ ''/'' else [])"

definition s3Key :: "Env \<Rightarrow> BackupFrequency \<Rightarrow> string \<Rightarrow> string" where
  "s3Key env f name = bucket_prefix env @ frequency_name f @ ''/'' @ name"

definition contentMD5 :: "'w ops \<Rightarrow> Env \<Rightarrow> string \<Rightarrow> ('w, string option) io" where
  "contentMD5 ops env path s =
     (if SUPPORT_OBJECT_LOCK env
      then (case call (HashFile path) (createMD5 ops path) s of
              (None, s1) \<Rightarrow> (Inl MD5Error, s1)
            | (Some md5Hash, s1) \<Rightarrow> (Inr (Some (hex_to_base64 ops md5Hash)), s1))
      else (Inr None, s))"

definition upload_done ::
  "'w ops \<Rightarrow> string \<Rightarrow> string \<Rightarrow> string \<Rightarrow> string option \<Rightarrow> ('w, unit) io" where
  "upload_done ops bucket key path md5 s =
     (case call (PutObject bucket key path md5) (s3_put ops bucket key path md5) s of
        (ok, s') \<Rightarrow> (if ok then Inr () else Inl UploadError, s'))"

definition uploadToS3 ::
  "'w ops \<Rightarrow> Env \<Rightarrow> string \<Rightarrow> string \<Rightarrow> BackupFrequency \<Rightarrow> ('w, unit) io" where
  "uploadToS3 ops env name path f =
     andThen (contentMD5 ops env path) (\<lambda>md5.
     andThen (upload_done ops (AWS_S3_BUCKET env) (s3Key env f name) path md5) (\<lambda>_.
     cleanupOldBackups ops env (AWS_S3_BUCKET env) (bucket_prefix env) f))"

text \<open>
  \<open>runBackup\<close>. The file name and path are made from the \<open>now\<close> read before the
  \<open>try\<close>; \<open>path.join\<close> is taken as joining with a slash.
\<close>

definition backup_filename :: "'w ops \<Rightarrow> Env \<Rightarrow> int \<Rightarrow> string" where
  "backup_filename ops env now =
     BACKUP_FILE_PREFIX env @ ''-'' @ replace_runs False (toISOString ops now) @ ''.tar.gz''"

definition backup_filepath :: "'w ops \<Rightarrow> Env \<Rightarrow> int \<Rightarrow> string" where
  "backup_filepath ops env now = path_join (tmpdir ops) (backup_filename ops env now)"

definition markSucceeded :: "BackupFrequency \<Rightarrow> int \<Rightarrow> 'w state \<Rightarrow> 'w state" where
  "markSucceeded f now s = s\<lparr>lastBackupTimes := (lastBackupTimes s)(f \<mapsto> now)\<rparr>"

text \<open>The body of the \<open>try\<close> block of \<open>runBackup\<close>, for the \<open>now\<close> read before it.\<close>

definition runBackup_try :: "'w ops \<Rightarrow> Env \<Rightarrow> BackupFrequency \<Rightarrow> int \<Rightarrow> ('w, unit) io" where
  "runBackup_try ops env f now =
     andThen (dumpToFile ops (backup_filepath ops env now)) (\<lambda>_.
     andThen (uploadToS3 ops env (backup_filename ops env now) (backup_filepath ops env now) f) (\<lambda>_.
     andThen (deleteFile ops (backup_filepath ops env now)) (\<lambda>_ s.
     (Inr (), emit (Log_BackupComplete f) (markSucceeded f now s)))))"

definition runBackup :: "'w ops \<Rightarrow> Env \<Rightarrow> BackupFrequency \<Rightarrow> ('w, unit) io" where
  "runBackup ops env f s =
     (case runBackup_try ops env f (clock ops (world s)) s of
        (Inl e, s') \<Rightarrow> (Inr (), emit (Log_BackupFailed e) s')
      | (Inr u, s') \<Rightarrow> (Inr (), s'))"

text \<open>\<open>backup\<close>: "When running a manual backup, use 10min frequency".\<close>

definition backup :: "'w ops \<Rightarrow> Env \<Rightarrow> ('w, unit) io" where
  "backup ops env = runBackup ops env TenMin"

section \<open>Seeding and the tick loop\<close>

text \<open>
  The loop of \<open>getLastBackupTimes\<close>; its try/catch turns a rejected listing (and anything
  else thrown inside) into "nothing set for this frequency".
\<close>

definition newest_LastModified :: "S3Object list \<Rightarrow> int option" where
  "newest_LastModified contents =
     (if length contents > 0
      then (case sort_newest_first contents of
              [] \<Rightarrow> None
            | newest # _ \<Rightarrow> LastModified newest)
      else None)"

fun seed_each ::
  "'w ops \<Rightarrow> string \<Rightarrow> string \<Rightarrow> BackupInterval list \<Rightarrow> (BackupFrequency \<Rightarrow> int option) \<Rightarrow>
   'w state \<Rightarrow> (BackupFrequency \<Rightarrow> int option) \<times> 'w state" where
  "seed_each ops bucket pfx [] result s = (result, s)"
| "seed_each ops bucket pfx (interval # rest) result s =
     (case call (ListObjects bucket (pfx @ frequency_name (frequency interval) @ ''/''))
             (s3_list ops bucket (pfx @ frequency_name (frequency interval) @ ''/'')) s of
        (None, s1) \<Rightarrow> seed_each ops bucket pfx rest result s1
      | (Some None, s1) \<Rightarrow> seed_each ops bucket pfx rest result s1
      | (Some (Some contents), s1) \<Rightarrow>
          (case newest_LastModified contents of
             None \<Rightarrow> seed_each ops bucket pfx rest result s1
           | Some t \<Rightarrow> seed_each ops bucket pfx rest (result(frequency interval \<mapsto> t)) s1))"

definition getLastBackupTimes ::
  "'w ops \<Rightarrow> string \<Rightarrow> string \<Rightarrow> 'w state \<Rightarrow> (BackupFrequency \<Rightarrow> int option) \<times> 'w state" where
  "getLastBackupTimes ops bucket pfx s =
     seed_each ops bucket pfx BACKUP_INTERVALS Map.empty s"

text \<open>The \<open>for\<close> loop of one tick: \<open>shouldRunBackup\<close> at a fresh \<open>new Date()\<close>, then the trigger.\<close>

fun check_each :: "'w ops \<Rightarrow> Env \<Rightarrow> BackupInterval list \<Rightarrow> ('w, unit) io" where
  "check_each ops env [] s = (Inr (), s)"
| "check_each ops env (interval # rest) s =
     (case shouldRunBackup (lastBackupTimes s) (frequency interval) (clock ops (world s)) of
        Inl e \<Rightarrow> (Inl e, s)
      | Inr due \<Rightarrow>
          if due
          then andThen (runBackup ops env (frequency interval))
                 (\<lambda>_. check_each ops env rest) (emit (Log_Triggering (frequency interval)) s)
          else check_each ops env rest s)"

definition sleep :: "'w ops \<Rightarrow> int \<Rightarrow> 'w state \<Rightarrow> 'w state" where
  "sleep ops ms s = emit (Sleep ms) (s\<lparr>world := sleep_io ops ms (world s)\<rparr>)"

text \<open>\<open>getSeconds()\<close> and \<open>getMilliseconds()\<close> of a time in milliseconds.\<close>

definition waitMs :: "int \<Rightarrow> int" where
  "waitMs now = (60 - (now div 1000) mod 60) * 1000 - now mod 1000"

text \<open>One iteration of \<open>while (true)\<close>.\<close>

definition tick :: "'w ops \<Rightarrow> Env \<Rightarrow> ('w, unit) io" where
  "tick ops env s =
     andThen (check_each ops env BACKUP_INTERVALS) (\<lambda>_ s'. (Inr (), sleep ops (60 * 1000) s'))
       (sleep ops (waitMs (clock ops (world s))) s)"

text \<open>
  \<open>while (true)\<close> has no exit but a throw. With fuel \<open>n\<close> the model runs \<open>n\<close> iterations:
  \<open>Inr ()\<close> then means "still looping after \<open>n\<close> ticks", \<open>Inl e\<close> that \<open>e\<close> left the loop.
\<close>

fun tick_loop :: "'w ops \<Rightarrow> Env \<Rightarrow> nat \<Rightarrow> ('w, unit) io" where
  "tick_loop ops env 0 s = (Inr (), s)"
| "tick_loop ops env (Suc n) s = andThen (tick ops env) (\<lambda>_. tick_loop ops env n) s"

text \<open>
  \<open>startBackupScheduler\<close>: every entry that seeding found is \<open>set\<close> in
  \<open>lastBackupTimes\<close>, the other entries stay; then the loop.
\<close>

definition startBackupScheduler :: "'w ops \<Rightarrow> Env \<Rightarrow> nat \<Rightarrow> ('w, unit) io" where
  "startBackupScheduler ops env fuel s =
     (case getLastBackupTimes ops (AWS_S3_BUCKET env) (bucket_prefix env) s of
        (initialBackupTimes, s1) \<Rightarrow>
          tick_loop ops env fuel
            (s1\<lparr>lastBackupTimes := lastBackupTimes s1 ++ initialBackupTimes\<rparr>))"

section \<open>index.ts\<close>

text \<open>How a run of the process stands: ended by \<open>process.exit(code)\<close>, or still in the loop.\<close>

datatype 'w run = Exited int "'w state" | Running "'w state"

text \<open>\<open>tryBackup\<close>: \<open>Some code\<close> when it called \<open>process.exit(code)\<close>.\<close>

definition tryBackup :: "'w ops \<Rightarrow> Env \<Rightarrow> 'w state \<Rightarrow> int option \<times> 'w state" where
  "tryBackup ops env s =
     (case backup ops env s of
        (Inl e, s') \<Rightarrow> (Some 1, s')
      | (Inr u, s') \<Rightarrow> (None, s'))"

text \<open>
  \<open>await startBackupScheduler()\<close> inside the \<open>try\<close> of \<open>main\<close>: an error leaving the
  loop ends the process with code 1.
\<close>

definition run_scheduler :: "'w ops \<Rightarrow> Env \<Rightarrow> nat \<Rightarrow> 'w state \<Rightarrow> 'w run" where
  "run_scheduler ops env fuel s =
     (case startBackupScheduler ops env fuel s of
        (Inl e, s') \<Rightarrow> Exited 1 s'
      | (Inr u, s') \<Rightarrow> Running s')"

definition main :: "'w ops \<Rightarrow> Env \<Rightarrow> nat \<Rightarrow> 'w state \<Rightarrow> 'w run" where
  "main ops env fuel s =
     (if RUN_ON_STARTUP env \<or> SINGLE_SHOT_MODE env
      then (case tryBackup ops env s of
              (Some code, s1) \<Rightarrow> Exited code s1
            | (None, s1) \<Rightarrow>
                if SINGLE_SHOT_MODE env then Exited 0 s1 else run_scheduler ops env fuel s1)
      else run_scheduler ops env fuel s)"

section \<open>A simulated world, for running the model on concrete inputs\<close>

text \<open>
  A bucket held as a list, a clock that only \<open>sleep\<close> advances, and switches that make
  single calls fail. \<open>toISOString\<close> is a fixed rendering; the hash is a fixed string.
\<close>

record sim =
  sim_now :: int
  sim_bucket :: "S3Object list"
  sim_fail_dump :: bool
  sim_fail_gzip :: bool
  sim_fail_put :: bool
  sim_fail_list :: bool
  sim_fail_delete :: "string list"
  sim_fail_unlink :: bool

definition under_prefix :: "string \<Rightarrow> S3Object \<Rightarrow> bool" where
  "under_prefix p obj = (case Key obj of None \<Rightarrow> False | Some k \<Rightarrow> take (length p) k = p)"

definition sim_ops :: "sim ops" where
  "sim_ops =
     \<lparr>clock = sim_now,
      toISOString = (\<lambda>t. ''2026-11-02T10:00:00.000Z''),
      tmpdir = ''/tmp'',
      hex_to_base64 = (\<lambda>h. h),
      sleep_io = (\<lambda>ms w. w\<lparr>sim_now := sim_now w + ms\<rparr>),
      pg_dump_io = (\<lambda>p w. (\<not> sim_fail_dump w, w)),
      gzip_check_io = (\<lambda>p w. (\<not> sim_fail_gzip w, w)),
      createMD5 = (\<lambda>p w. (Some ''d41d8cd9'', w)),
      s3_put = (\<lambda>b k p m w.
        if sim_fail_put w then (False, w)
        else (True, w\<lparr>sim_bucket :=
                sim_bucket w @ [\<lparr>Key = Some k, LastModified = Some (sim_now w)\<rparr>]\<rparr>)),
      s3_list = (\<lambda>b p w.
        if sim_fail_list w then (None, w)
        else (Some (Some (filter (under_prefix p) (sim_bucket w))), w)),
      s3_delete = (\<lambda>b k w.
        if k \<in> set (sim_fail_delete w) then (False, w)
        else (True, w\<lparr>sim_bucket := filter (\<lambda>obj. Key obj \<noteq> Some k) (sim_bucket w)\<rparr>)),
      unlink_io = (\<lambda>p w. (\<not> sim_fail_unlink w, w))\<rparr>"

definition sim_env :: Env where
  "sim_env =
     \<lparr>AWS_S3_BUCKET = ''bkt'', BUCKET_SUBFOLDER = ''db'', BACKUP_FILE_PREFIX = ''backup'',
      SUPPORT_OBJECT_LOCK = False, BACKUP_RETENTION_COUNT = 2,
      RUN_ON_STARTUP = False, SINGLE_SHOT_MODE = False\<rparr>"

text \<open>A world at 10:00:30.250 on some day, with an empty bucket and nothing failing.\<close>

definition sim_world :: sim where
  "sim_world =
     \<lparr>sim_now = 36030250, sim_bucket = [], sim_fail_dump = False, sim_fail_gzip = False,
      sim_fail_put = False, sim_fail_list = False, sim_fail_delete = [],
      sim_fail_unlink = False\<rparr>"

text \<open>
  A world whose bucket holds four 10min objects, listed in no particular order, and one
  hourly object.
\<close>

definition crowded_world :: sim where
  "crowded_world =
     sim_world\<lparr>sim_bucket :=
       [\<lparr>Key = Some ''db/10min/b'', LastModified = Some 2000\<rparr>,
        \<lparr>Key = Some ''db/10min/d'', LastModified = Some 4000\<rparr>,
        \<lparr>Key = Some ''db/hourly/x'', LastModified = Some 500\<rparr>,
        \<lparr>Key = Some ''db/10min/a'', LastModified = Some 1000\<rparr>,
        \<lparr>Key = Some ''db/10min/c'', LastModified = Some 3000\<rparr>]\<rparr>"

text \<open>
  A store that answers every listing the same way whatever its state: three weekly objects
  with the newest in the middle, a rejected daily listing, an hourly listing without
  \<open>Contents\<close>, and an empty 10min listing.
\<close>

definition fixed_listing :: "BackupFrequency \<Rightarrow> S3Object list option option" where
  "fixed_listing f =
     (case f of
        Weekly \<Rightarrow> Some (Some [\<lparr>Key = Some ''db/weekly/q'', LastModified = Some 200\<rparr>,
                               \<lparr>Key = Some ''db/weekly/r'', LastModified = Some 300\<rparr>,
                               \<lparr>Key = Some ''db/weekly/p'', LastModified = Some 100\<rparr>])
      | Daily \<Rightarrow> None
      | Hourly \<Rightarrow> Some None
      | TenMin \<Rightarrow> Some (Some []))"

definition fixed_ops :: "sim ops" where
  "fixed_ops =
     sim_ops\<lparr>s3_list := (\<lambda>b p w.
       (if p = ''db/weekly/'' then fixed_listing Weekly
        else if p = ''db/daily/'' then fixed_listing Daily
        else if p = ''db/hourly/'' then fixed_listing Hourly
        else fixed_listing TenMin, w))\<rparr>"

text \<open>The simulated world with a dump that takes \<open>d\<close> milliseconds of its clock.\<close>

definition slow_ops :: "int \<Rightarrow> sim ops" where
  "slow_ops d =
     sim_ops\<lparr>pg_dump_io := (\<lambda>p w. (\<not> sim_fail_dump w, w\<lparr>sim_now := sim_now w + d\<rparr>))\<rparr>"

text \<open>The state of a process that has just started: no last backup recorded, no event yet.\<close>

definition start :: "'w \<Rightarrow> 'w state" where
  "start w = \<lparr>world = w, lastBackupTimes = Map.empty, trace = []\<rparr>"

section \<open>Vocabulary of the properties\<close>

text \<open>The duration of a frequency in milliseconds, as \<open>BACKUP_INTERVALS\<close> gives it.\<close>

definition duration :: "BackupFrequency \<Rightarrow> int" where
  "duration f =
     (case f of TenMin \<Rightarrow> 600000 | Hourly \<Rightarrow> 3600000 | Daily \<Rightarrow> 86400000 | Weekly \<Rightarrow> 604800000)"


fun deletions :: "event list \<Rightarrow> string list" where
  "deletions [] = []"
| "deletions (DeleteObject b k # evs) = k # deletions evs"
| "deletions (ev # evs) = deletions evs"

text \<open>The keys of the objects the delete loop does not skip (\<open>if (!object.Key) continue\<close>).\<close>

fun deletable_keys :: "S3Object list \<Rightarrow> string list" where
  "deletable_keys [] = []"
| "deletable_keys (obj # rest) =
     (case Key obj of
        None \<Rightarrow> deletable_keys rest
      | Some k \<Rightarrow> if k = [] then deletable_keys rest else k # deletable_keys rest)"

text \<open>
  The events one backup cycle of frequency \<open>f\<close> can emit: its store calls stay in the
  configured bucket and under \<open><prefix><f>/\<close>, and it neither sleeps nor triggers.
\<close>

fun cycle_event :: "Env \<Rightarrow> BackupFrequency \<Rightarrow> event \<Rightarrow> bool" where
  "cycle_event env f (PutObject b k p m) =
     (b = AWS_S3_BUCKET env \<and> prefix (bucket_prefix env @ frequency_name f @ ''/'') k)"
| "cycle_event env f (ListObjects b p) =
     (b = AWS_S3_BUCKET env \<and> p = bucket_prefix env @ frequency_name f @ ''/'')"
| "cycle_event env f (DeleteObject b k) = (b = AWS_S3_BUCKET env)"
| "cycle_event env f (Log_BackupComplete f') = (f' = f)"
| "cycle_event env f (Sleep ms) = False"
| "cycle_event env f (Log_Triggering f') = False"
| "cycle_event env f ev = True"

text \<open>
  \<open>s'\<close> is \<open>s\<close> after more events, all of them satisfying \<open>Q\<close>, with
  \<open>lastBackupTimes\<close> as it was.
\<close>

definition grows :: "(event \<Rightarrow> bool) \<Rightarrow> 'w state \<Rightarrow> 'w state \<Rightarrow> bool" where
  "grows Q s s' =
     (lastBackupTimes s' = lastBackupTimes s \<and>
      (\<exists>evs. trace s' = trace s @ evs \<and> list_all Q evs))"


text \<open>What seeding records for a frequency, from the store's answer to its listing.\<close>

definition seeded :: "S3Object list option option \<Rightarrow> int option" where
  "seeded answer =
     (case answer of None \<Rightarrow> None | Some None \<Rightarrow> None
      | Some (Some contents) \<Rightarrow> newest_LastModified contents)"

text \<open>
  The body of the tick's \<open>for\<close> loop for one frequency, as the state it leaves
  (the body always resolves, see \<open>check_each_Cons\<close>).
\<close>

definition check_interval :: "'w ops \<Rightarrow> Env \<Rightarrow> BackupFrequency \<Rightarrow> 'w state \<Rightarrow> 'w state" where
  "check_interval ops env f s =
     (if shouldRunBackup (lastBackupTimes s) f (clock ops (world s)) = Inr True
      then snd (runBackup ops env f (emit (Log_Triggering f) s))
      else s)"

section \<open>Due-ness: properties\<close>

lemma find_interval:
  "find (\<lambda>i. frequency i = f) BACKUP_INTERVALS = Some \<lparr>frequency = f, milliseconds = duration f\<rparr>"
  by (cases f) (simp_all add: BACKUP_INTERVALS_def duration_def)

lemma shouldRunBackup_eq:
  "shouldRunBackup lbt f now =
     Inr (case lbt f of None \<Rightarrow> True | Some t \<Rightarrow> duration f \<le> now - t)"
  by (simp add: shouldRunBackup_def find_interval split: option.split)

text \<open>
  C6. \<open>shouldRunBackup\<close> never throws and answers, for every frequency and every instant:
  due when no last backup is recorded; otherwise due exactly when \<open>now - lastBackup\<close> is at
  least the frequency's duration (10 minutes, 1 hour, 1 day, 1 week in milliseconds), the
  boundary included. It is a function of the map and the instant and returns only the
  answer: the map is not changed.
\<close>

theorem shouldRunBackup_spec:
  "shouldRunBackup lbt f now =
     Inr (case lbt f of
            None \<Rightarrow> True
          | Some t \<Rightarrow>
              now - t \<ge> (case f of TenMin \<Rightarrow> 600000 | Hourly \<Rightarrow> 3600000
                          | Daily \<Rightarrow> 86400000 | Weekly \<Rightarrow> 604800000))"
  by (simp add: shouldRunBackup_def find_interval duration_def split: option.split)

section \<open>Traces and frames of the steps of a cycle\<close>


lemma deletions_append: "deletions (xs @ ys) = deletions xs @ deletions ys"
  by (induction xs rule: deletions.induct) simp_all



lemma andThenE:
  assumes "andThen m k s = (r, s')"
  obtains (rejected) e where "m s = (Inl e, s')" "r = Inl e"
        | (resolved) x s1 where "m s = (Inr x, s1)" "k x s1 = (r, s')"
  using assms by (auto simp: andThen_def split: prod.splits sum.splits)

lemma grows_refl: "grows Q s s"
  by (simp add: grows_def)

lemma grows_trans: "grows Q s s1 \<Longrightarrow> grows Q s1 s2 \<Longrightarrow> grows Q s s2"
  by (auto simp: grows_def)

lemma grows_emit: "Q ev \<Longrightarrow> grows Q s (emit ev s)"
  by (simp add: grows_def emit_def)

lemma grows_call: "call ev f s = (r, s') \<Longrightarrow> Q ev \<Longrightarrow> grows Q s s'"
  by (auto simp: grows_def call_def emit_def split: prod.splits)

lemma grows_lbt: "grows Q s s' \<Longrightarrow> lastBackupTimes s' = lastBackupTimes s"
  by (simp add: grows_def)

lemma grows_weaken: "grows P s s' \<Longrightarrow> (\<And>ev. P ev \<Longrightarrow> Q ev) \<Longrightarrow> grows Q s s'"
  by (auto simp: grows_def list_all_iff)

lemma call_trace: "call ev f s = (r, s') \<Longrightarrow> trace s' = trace s @ [ev]"
  by (auto simp: call_def emit_def split: prod.splits)

lemma call_lbt: "call ev f s = (r, s') \<Longrightarrow> lastBackupTimes s' = lastBackupTimes s"
  by (auto simp: call_def emit_def split: prod.splits)

lemma call_result: "call ev f s = (r, s') \<Longrightarrow> r = fst (f (world s))"
  by (auto simp: call_def emit_def split: prod.splits)

lemma grows_andThen:
  assumes run: "andThen m k s = (r, s')"
    and m: "\<And>r1 s1. m s = (r1, s1) \<Longrightarrow> grows Q s s1"
    and k: "\<And>x s1. m s = (Inr x, s1) \<Longrightarrow> k x s1 = (r, s') \<Longrightarrow> grows Q s1 s'"
  shows "grows Q s s'"
  using run
proof (cases rule: andThenE)
  case (rejected e)
  then show ?thesis using m by blast
next
  case (resolved x s1)
  then show ?thesis using m k grows_trans by blast
qed

lemma deleteFile_grows:
  assumes "deleteFile ops path s = (r, s')"
  shows "grows (cycle_event env f) s s'"
proof -
  obtain ok s1 where c: "call (Unlink path) (unlink_io ops path) s = (ok, s1)"
    by (cases "call (Unlink path) (unlink_io ops path) s")
  with assms have "s' = s1" by (simp add: deleteFile_def)
  with grows_call [OF c] show ?thesis by simp
qed

lemma dumpToFile_grows:
  assumes run: "dumpToFile ops path s = (r, s')"
  shows "grows (cycle_event env f) s s'"
proof -
  obtain ok s1 where c1: "call (Exec_pg_dump path) (pg_dump_io ops path) s = (ok, s1)"
    by (cases "call (Exec_pg_dump path) (pg_dump_io ops path) s")
  have g1: "grows (cycle_event env f) s s1"
    using c1 by (rule grows_call) simp
  show ?thesis
  proof (cases ok)
    case False
    with run c1 have "s' = s1" by (simp add: dumpToFile_def)
    with g1 show ?thesis by simp
  next
    case True
    obtain v s2 where c2: "call (Exec_gzip_check path) (gzip_check_io ops path) s1 = (v, s2)"
      by (cases "call (Exec_gzip_check path) (gzip_check_io ops path) s1")
    have g2: "grows (cycle_event env f) s1 s2"
      using c2 by (rule grows_call) simp
    from run c1 c2 True have "s' = s2" by (simp add: dumpToFile_def split: if_splits)
    with grows_trans [OF g1 g2] show ?thesis by simp
  qed
qed

lemma contentMD5_grows:
  assumes run: "contentMD5 ops env' path s = (r, s')"
  shows "grows (cycle_event env f) s s'"
proof (cases "SUPPORT_OBJECT_LOCK env'")
  case False
  with run show ?thesis by (simp add: contentMD5_def grows_refl)
next
  case True
  obtain h s1 where c: "call (HashFile path) (createMD5 ops path) s = (h, s1)"
    by (cases "call (HashFile path) (createMD5 ops path) s")
  with run True have "s' = s1" by (simp add: contentMD5_def split: option.splits)
  with grows_call [OF c] show ?thesis by simp
qed

lemma upload_done_grows:
  assumes run: "upload_done ops (AWS_S3_BUCKET env) (s3Key env f name) path md5 s = (r, s')"
  shows "grows (cycle_event env f) s s'"
proof -
  obtain ok s1 where c: "call (PutObject (AWS_S3_BUCKET env) (s3Key env f name) path md5)
      (s3_put ops (AWS_S3_BUCKET env) (s3Key env f name) path md5) s = (ok, s1)"
    by (cases "call (PutObject (AWS_S3_BUCKET env) (s3Key env f name) path md5)
      (s3_put ops (AWS_S3_BUCKET env) (s3Key env f name) path md5) s")
  with run have "s' = s1" by (simp add: upload_done_def)
  moreover have "grows (cycle_event env f) s s1"
    using c by (rule grows_call) (simp add: s3Key_def)
  ultimately show ?thesis by simp
qed

text \<open>What the delete loop attempts, and where it stops.\<close>

lemma delete_each_attempts:
  "delete_each ops b objs s = (r, s') \<Longrightarrow>
   lastBackupTimes s' = lastBackupTimes s \<and>
   (case r of
      Inr u \<Rightarrow> trace s' = trace s @ map (DeleteObject b) (deletable_keys objs)
    | Inl e \<Rightarrow> e = DeleteError \<and>
        (\<exists>before k later. deletable_keys objs = before @ k # later \<and>
           trace s' = trace s @ map (DeleteObject b) (before @ [k])))"
proof (induction objs arbitrary: s)
  case Nil
  then show ?case by auto
next
  case (Cons obj rest)
  show ?case
  proof (cases "Key obj = None \<or> Key obj = Some []")
    case True
    with Cons.prems have "delete_each ops b rest s = (r, s')" by auto
    moreover from True have "deletable_keys (obj # rest) = deletable_keys rest" by auto
    ultimately show ?thesis using Cons.IH by presburger
  next
    case False
    then obtain k where k: "Key obj = Some k" "k \<noteq> []" by auto
    obtain ok s1 where c: "call (DeleteObject b k) (s3_delete ops b k) s = (ok, s1)"
      by (cases "call (DeleteObject b k) (s3_delete ops b k) s")
    note t1 = call_trace [OF c] and l1 = call_lbt [OF c]
    show ?thesis
    proof (cases ok)
      case False
      with Cons.prems k c have "r = Inl DeleteError" "s' = s1" by auto
      moreover from t1 k have "deletable_keys (obj # rest) = [] @ k # deletable_keys rest \<and>
          trace s1 = trace s @ map (DeleteObject b) ([] @ [k])" by simp
      then have "\<exists>before k later. deletable_keys (obj # rest) = before @ k # later \<and>
          trace s1 = trace s @ map (DeleteObject b) (before @ [k])" by blast
      ultimately show ?thesis using l1 by simp
    next
      case True
      with Cons.prems k c have rest: "delete_each ops b rest s1 = (r, s')" by auto
      from Cons.IH [OF rest] have
        ih_l: "lastBackupTimes s' = lastBackupTimes s1" and
        ih: "(case r of
               Inr u \<Rightarrow> trace s' = trace s1 @ map (DeleteObject b) (deletable_keys rest)
             | Inl e \<Rightarrow> e = DeleteError \<and>
                 (\<exists>before k later. deletable_keys rest = before @ k # later \<and>
                    trace s' = trace s1 @ map (DeleteObject b) (before @ [k])))"
        by simp_all
      show ?thesis
      proof (cases r)
        case (Inr u)
        with ih t1 l1 ih_l k show ?thesis by simp
      next
        case (Inl e)
        with ih obtain before k' later where
          "e = DeleteError" "deletable_keys rest = before @ k' # later"
          "trace s' = trace s1 @ map (DeleteObject b) (before @ [k'])" by auto
        with t1 k have "deletable_keys (obj # rest) = (k # before) @ k' # later \<and>
            trace s' = trace s @ map (DeleteObject b) ((k # before) @ [k'])" by simp
        then have "\<exists>before k later. deletable_keys (obj # rest) = before @ k # later \<and>
            trace s' = trace s @ map (DeleteObject b) (before @ [k])" by blast
        with Inl \<open>e = DeleteError\<close> l1 ih_l show ?thesis by simp
      qed
    qed
  qed
qed

text \<open>A rejected delete is what ends the loop: nothing after it is attempted.\<close>

lemma delete_each_rejected_stops:
  assumes "Key obj = Some k" and "k \<noteq> []"
    and "call (DeleteObject b k) (s3_delete ops b k) s = (False, s')"
  shows "delete_each ops b (obj # rest) s = (Inl DeleteError, s')"
  using assms by simp

lemma delete_each_grows:
  assumes "delete_each ops (AWS_S3_BUCKET env) objs s = (r, s')"
  shows "grows (cycle_event env f) s s'"
proof -
  note a = delete_each_attempts [OF assms]
  have "\<exists>ks. trace s' = trace s @ map (DeleteObject (AWS_S3_BUCKET env)) ks"
  proof (cases r)
    case (Inr u)
    with a show ?thesis by auto
  next
    case (Inl e)
    with a obtain before k where
      "trace s' = trace s @ map (DeleteObject (AWS_S3_BUCKET env)) (before @ [k])" by auto
    then show ?thesis by blast
  qed
  then obtain ks where "trace s' = trace s @ map (DeleteObject (AWS_S3_BUCKET env)) ks"
    by blast
  moreover from a have "lastBackupTimes s' = lastBackupTimes s" by simp
  moreover have "list_all (cycle_event env f) (map (DeleteObject (AWS_S3_BUCKET env)) ks)"
    by (simp add: list_all_iff)
  ultimately show ?thesis unfolding grows_def by blast
qed

text \<open>The three ways \<open>cleanupOldBackups\<close> can go after its listing.\<close>

lemma cleanupOldBackups_cases:
  assumes run: "cleanupOldBackups ops env b pfx f s = (r, s')"
  obtains (list_rejected) "call (ListObjects b (pfx @ frequency_name f @ ''/''))
                             (s3_list ops b (pfx @ frequency_name f @ ''/'')) s = (None, s')"
                          "r = Inl ListError"
  | (no_contents) "call (ListObjects b (pfx @ frequency_name f @ ''/''))
                     (s3_list ops b (pfx @ frequency_name f @ ''/'')) s = (Some None, s')"
                  "r = Inr ()"
  | (contents) contents s1 where
      "call (ListObjects b (pfx @ frequency_name f @ ''/''))
         (s3_list ops b (pfx @ frequency_name f @ ''/'')) s = (Some (Some contents), s1)"
      "delete_each ops b (objectsToDelete env contents) s1 = (r, s')"
  using run unfolding cleanupOldBackups_def
  by (auto split: prod.splits option.splits)

lemma cleanupOldBackups_grows:
  assumes run: "cleanupOldBackups ops env (AWS_S3_BUCKET env) (bucket_prefix env) f s = (r, s')"
  shows "grows (cycle_event env f) s s'"
  using run
proof (cases rule: cleanupOldBackups_cases)
  case list_rejected
  then show ?thesis by (auto intro: grows_call)
next
  case no_contents
  then show ?thesis by (auto intro: grows_call)
next
  case (contents contents s1)
  have "grows (cycle_event env f) s s1"
    using contents(1) by (rule grows_call) simp
  with delete_each_grows [OF contents(2)] show ?thesis
    by (blast intro: grows_trans)
qed

lemma uploadToS3_grows:
  assumes run: "uploadToS3 ops env name path f s = (r, s')"
  shows "grows (cycle_event env f) s s'"
  using run unfolding uploadToS3_def
proof (rule grows_andThen)
  fix r1 s1 assume "contentMD5 ops env path s = (r1, s1)"
  then show "grows (cycle_event env f) s s1" by (rule contentMD5_grows)
next
  fix md5 s1
  assume "andThen (upload_done ops (AWS_S3_BUCKET env) (s3Key env f name) path md5)
            (\<lambda>_. cleanupOldBackups ops env (AWS_S3_BUCKET env) (bucket_prefix env) f) s1 = (r, s')"
  then show "grows (cycle_event env f) s1 s'"
    by (rule grows_andThen) (auto intro: upload_done_grows cleanupOldBackups_grows)
qed

text \<open>
  The \<open>try\<close> block: rejected, it has changed no recorded time; resolved, it has recorded
  \<open>now\<close> for its frequency and nothing else.
\<close>

lemma runBackup_try_outcome:
  assumes run: "runBackup_try ops env f now s = (r, s')"
  shows "case r of
           Inl e \<Rightarrow> grows (cycle_event env f) s s'
         | Inr u \<Rightarrow> (\<exists>s3. grows (cycle_event env f) s s3 \<and>
                      s' = emit (Log_BackupComplete f) (markSucceeded f now s3))"
proof -
  let ?Q = "cycle_event env f"
  let ?path = "backup_filepath ops env now"
  let ?name = "backup_filename ops env now"
  from run show ?thesis unfolding runBackup_try_def
  proof (cases rule: andThenE)
    case (rejected e)
    then show ?thesis by (auto intro: dumpToFile_grows)
  next
    case dump: (resolved x s1)
    have g1: "grows ?Q s s1" using dump(1) by (rule dumpToFile_grows)
    from dump(2) show ?thesis
    proof (cases rule: andThenE)
      case (rejected e)
      with g1 show ?thesis by (auto intro: grows_trans uploadToS3_grows)
    next
      case up: (resolved y s2)
      have g2: "grows ?Q s s2"
        using g1 uploadToS3_grows [OF up(1)] by (rule grows_trans)
      from up(2) show ?thesis
      proof (cases rule: andThenE)
        case (rejected e)
        with g2 show ?thesis by (auto intro: grows_trans deleteFile_grows)
      next
        case del: (resolved z s3)
        have "grows ?Q s s3"
          using g2 deleteFile_grows [OF del(1)] by (rule grows_trans)
        with del(2) show ?thesis by auto
      qed
    qed
  qed
qed


text \<open>The \<open>catch\<close> of \<open>runBackup\<close> takes every rejection: the trigger itself always resolves.\<close>

lemma runBackup_resolves: "fst (runBackup ops env f s) = Inr ()"
  by (simp add: runBackup_def split: prod.splits sum.splits)

lemma runBackup_failed:
  assumes "runBackup_try ops env f (clock ops (world s)) s = (Inl e, s1)"
  shows "runBackup ops env f s = (Inr (), emit (Log_BackupFailed e) s1)"
    and "lastBackupTimes (snd (runBackup ops env f s)) = lastBackupTimes s"
proof -
  show r: "runBackup ops env f s = (Inr (), emit (Log_BackupFailed e) s1)"
    using assms by (simp add: runBackup_def)
  from runBackup_try_outcome [OF assms] have "lastBackupTimes s1 = lastBackupTimes s"
    by (simp add: grows_def)
  with r show "lastBackupTimes (snd (runBackup ops env f s)) = lastBackupTimes s"
    by (simp add: emit_def)
qed

lemma runBackup_succeeded:
  assumes "runBackup_try ops env f (clock ops (world s)) s = (Inr u, s1)"
  shows "runBackup ops env f s = (Inr (), s1)"
    and "lastBackupTimes (snd (runBackup ops env f s)) = (lastBackupTimes s)(f \<mapsto> clock ops (world s))"
proof -
  show r: "runBackup ops env f s = (Inr (), s1)"
    using assms by (simp add: runBackup_def)
  from runBackup_try_outcome [OF assms] obtain s3 where
    "lastBackupTimes s3 = lastBackupTimes s"
    "s1 = emit (Log_BackupComplete f) (markSucceeded f (clock ops (world s)) s3)"
    by (auto simp: grows_def)
  with r show "lastBackupTimes (snd (runBackup ops env f s)) = (lastBackupTimes s)(f \<mapsto> clock ops (world s))"
    by (simp add: emit_def markSucceeded_def)
qed


section \<open>The loops never reject\<close>

lemma andThen_resolved: "fst (m s) = Inr x \<Longrightarrow> andThen m k s = k x (snd (m s))"
  by (cases "m s") (simp add: andThen_def)

text \<open>One pass of the \<open>for\<close> loop over any list of intervals.\<close>

lemma check_each_Cons:
  "check_each ops env (interval # rest) s =
     check_each ops env rest (check_interval ops env (frequency interval) s)"
proof -
  let ?f = "frequency interval"
  let ?s1 = "emit (Log_Triggering ?f) s"
  obtain due where d: "shouldRunBackup (lastBackupTimes s) ?f (clock ops (world s)) = Inr due"
    by (simp add: shouldRunBackup_eq)
  have "andThen (runBackup ops env ?f) (\<lambda>_. check_each ops env rest) ?s1
        = check_each ops env rest (snd (runBackup ops env ?f ?s1))"
    by (rule andThen_resolved [OF runBackup_resolves])
  with d show ?thesis by (simp add: check_interval_def)
qed

lemma check_each_resolves: "fst (check_each ops env ivs s) = Inr ()"
proof (induction ivs arbitrary: s)
  case Nil
  show ?case by simp
next
  case (Cons interval rest)
  show ?case unfolding check_each_Cons by (rule Cons.IH)
qed



lemma tick_eq:
  "tick ops env s =
     (Inr (), sleep ops (60 * 1000)
                (snd (check_each ops env BACKUP_INTERVALS (sleep ops (waitMs (clock ops (world s))) s))))"
proof -
  let ?s0 = "sleep ops (waitMs (clock ops (world s))) s"
  show ?thesis unfolding tick_def
    by (simp add: andThen_resolved [OF check_each_resolves])
qed

lemma tick_loop_Suc:
  "tick_loop ops env (Suc n) s = tick_loop ops env n (snd (tick ops env s))"
  by (simp add: andThen_def tick_eq)

lemma tick_loop_resolves: "fst (tick_loop ops env n s) = Inr ()"
proof (induction n arbitrary: s)
  case 0
  show ?case by simp
next
  case (Suc n)
  show ?case unfolding tick_loop_Suc by (rule Suc.IH)
qed

section \<open>Sorting and seeding\<close>


lemma sort_newest_first_set: "set (sort_newest_first xs) = set xs"
  by (simp add: sort_newest_first_def)

lemma sort_newest_first_length: "length (sort_newest_first xs) = length xs"
  by (simp add: sort_newest_first_def)

lemma sort_newest_first_sorted:
  "sorted_wrt (\<lambda>a b. lm_time b \<le> lm_time a) (sort_newest_first xs)"
proof -
  have "sorted (map (\<lambda>obj. - lm_time obj) (sort_key (\<lambda>obj. - lm_time obj) xs))"
    by (rule sorted_sort_key)
  then show ?thesis by (simp add: sort_newest_first_def sorted_map)
qed

lemma sort_newest_first_stable:
  "filter (\<lambda>obj. lm_time obj = t) (sort_newest_first xs) = filter (\<lambda>obj. lm_time obj = t) xs"
  using sort_key_stable [of "\<lambda>obj. - lm_time obj" "- t" xs]
  by (simp add: sort_newest_first_def)



lemma newest_is_max:
  assumes "xs \<noteq> []"
  shows "\<exists>newest rest. sort_newest_first xs = newest # rest \<and> newest \<in> set xs \<and>
           lm_time newest = Max (lm_time ` set xs)"
proof -
  from assms have "sort_newest_first xs \<noteq> []"
    using sort_newest_first_length [of xs] by (metis length_0_conv)
  then obtain newest rest where s: "sort_newest_first xs = newest # rest"
    by (cases "sort_newest_first xs") auto
  then have mem: "newest \<in> set xs"
    using sort_newest_first_set [of xs] by (metis list.set_intros(1))
  have "\<forall>obj \<in> set xs. lm_time obj \<le> lm_time newest"
  proof
    fix obj assume "obj \<in> set xs"
    then have "obj \<in> set (newest # rest)" using sort_newest_first_set [of xs] s by simp
    moreover have "sorted_wrt (\<lambda>a b. lm_time b \<le> lm_time a) (newest # rest)"
      using sort_newest_first_sorted [of xs] s by simp
    ultimately show "lm_time obj \<le> lm_time newest" by auto
  qed
  with mem have "Max (lm_time ` set xs) = lm_time newest"
    by (intro Max_eqI) auto
  with s mem show ?thesis by simp
qed

lemma newest_LastModified_max:
  assumes "xs \<noteq> []" and "\<forall>obj \<in> set xs. LastModified obj \<noteq> None"
  shows "newest_LastModified xs = Some (Max (lm_time ` set xs))"
proof -
  from newest_is_max [OF assms(1)] obtain newest rest where
    n: "sort_newest_first xs = newest # rest" "newest \<in> set xs"
       "lm_time newest = Max (lm_time ` set xs)" by blast
  with assms(2) obtain t where "LastModified newest = Some t" by auto
  with n assms(1) show ?thesis by (simp add: newest_LastModified_def lm_time_def)
qed

lemma newest_LastModified_empty: "newest_LastModified [] = None"
  by (simp add: newest_LastModified_def)

text \<open>
  Seeding against a store whose listings do not change while it is read: \<open>listing f\<close> is
  what the store answers for the prefix of \<open>f\<close>.
\<close>

lemma seed_each_result:
  assumes stable: "\<And>f w. fst (s3_list ops b (pfx @ frequency_name f @ ''/'') w) = listing f"
  shows "fst (seed_each ops b pfx ivs result s) f =
     (if f \<in> frequency ` set ivs
      then (case seeded (listing f) of None \<Rightarrow> result f | Some t \<Rightarrow> Some t)
      else result f)"
proof (induction ivs arbitrary: result s)
  case Nil
  show ?case by simp
next
  case (Cons interval rest)
  let ?p = "pfx @ frequency_name (frequency interval) @ ''/''"
  obtain answer s1 where c: "call (ListObjects b ?p) (s3_list ops b ?p) s = (answer, s1)"
    by (cases "call (ListObjects b ?p) (s3_list ops b ?p) s")
  from call_result [OF c] stable have a: "answer = listing (frequency interval)" by simp
  define result1 where "result1 =
     (case seeded answer of None \<Rightarrow> result | Some t \<Rightarrow> result(frequency interval \<mapsto> t))"
  have step: "seed_each ops b pfx (interval # rest) result s = seed_each ops b pfx rest result1 s1"
    using c by (simp add: result1_def seeded_def split: option.splits)
  show ?case unfolding step Cons.IH
    by (auto simp: result1_def a split: option.splits)
qed

lemma getLastBackupTimes_result:
  assumes stable: "\<And>f w. fst (s3_list ops b (pfx @ frequency_name f @ ''/'') w) = listing f"
  shows "fst (getLastBackupTimes ops b pfx s) f = seeded (listing f)"
proof -
  have "f \<in> frequency ` set BACKUP_INTERVALS"
    by (cases f) (simp_all add: BACKUP_INTERVALS_def)
  then show ?thesis
    unfolding getLastBackupTimes_def seed_each_result [of ops b pfx listing, OF stable]
    by (simp split: option.splits)
qed

section \<open>Running the model on the simulated world\<close>

text \<open>The definitions to unfold when the model is run on a concrete input.\<close>

lemmas model_defs =
  runBackup_def runBackup_try_def andThen_def dumpToFile_def uploadToS3_def call_def emit_def
  contentMD5_def upload_done_def cleanupOldBackups_def deleteFile_def objectsToDelete_def
  slice_from_def sort_newest_first_def s3Key_def bucket_prefix_def backup_filename_def
  backup_filepath_def path_join_def markSucceeded_def lm_time_def backup_def tryBackup_def
  main_def run_scheduler_def

lemmas sim_defs =
  sim_ops_def sim_env_def sim_world_def start_def under_prefix_def crowded_world_def
  slow_ops_def

section \<open>Due-state after a trigger\<close>

text \<open>
  C4, as the code has it. A trigger that succeeds records the instant \<open>now\<close> it read when
  it began, before the dump. With that record, \<open>shouldRunBackup\<close> at \<open>now\<close> answers
  false, and at any instant \<open>t\<close> it answers true exactly when \<open>t - now\<close> has reached the
  frequency's duration. In particular, at the instant the trigger completes it answers
  true exactly when the cycle itself took at least the duration.
\<close>

theorem due_measured_from_trigger_start:
  assumes "fst (runBackup_try ops env f (clock ops (world s)) s) = Inr ()"
  shows "lastBackupTimes (snd (runBackup ops env f s)) f = Some (clock ops (world s)) \<and>
         shouldRunBackup (lastBackupTimes (snd (runBackup ops env f s))) f (clock ops (world s))
           = Inr False \<and>
         (\<forall>t. shouldRunBackup (lastBackupTimes (snd (runBackup ops env f s))) f t
           = Inr (duration f \<le> t - clock ops (world s))) \<and>
         shouldRunBackup (lastBackupTimes (snd (runBackup ops env f s))) f
             (clock ops (world (snd (runBackup ops env f s))))
           = Inr (duration f \<le>
                    clock ops (world (snd (runBackup ops env f s))) - clock ops (world s))"
proof -
  obtain s1 where "runBackup_try ops env f (clock ops (world s)) s = (Inr (), s1)"
    using assms by (metis prod.collapse)
  from runBackup_succeeded(2) [OF this]
  have l: "lastBackupTimes (snd (runBackup ops env f s)) f = Some (clock ops (world s))"
    by simp
  have "0 < duration f" by (cases f) (simp_all add: duration_def)
  with l show ?thesis by (simp add: shouldRunBackup_eq)
qed

text \<open>
  C4 as stated fails. A 10min trigger whose dump takes 700 seconds succeeds and records
  the instant it began; at the instant it completes, ten minutes have already passed since
  then, and \<open>shouldRunBackup\<close> answers true.
\<close>

theorem slow_cycle_due_at_completion_counterexample:
  "fst (runBackup_try (slow_ops 700000) sim_env TenMin 36030250 (start sim_world)) = Inr () \<and>
   clock (slow_ops 700000) (world (start sim_world)) = 36030250 \<and>
   lastBackupTimes (snd (runBackup (slow_ops 700000) sim_env TenMin (start sim_world))) TenMin
     = Some 36030250 \<and>
   clock (slow_ops 700000) (world (snd (runBackup (slow_ops 700000) sim_env TenMin (start sim_world))))
     = 36730250 \<and>
   shouldRunBackup
     (lastBackupTimes (snd (runBackup (slow_ops 700000) sim_env TenMin (start sim_world))))
     TenMin
     (clock (slow_ops 700000)
        (world (snd (runBackup (slow_ops 700000) sim_env TenMin (start sim_world)))))
     = Inr True"
  by (simp add: model_defs sim_defs shouldRunBackup_eq duration_def)

theorem due_measured_from_trigger_start_witness:
  "fst (runBackup_try (slow_ops 5000) sim_env Hourly
          (clock (slow_ops 5000) (world (start sim_world))) (start sim_world)) = Inr () \<and>
   lastBackupTimes (snd (runBackup (slow_ops 5000) sim_env Hourly (start sim_world))) Hourly
     = Some 36030250 \<and>
   clock (slow_ops 5000) (world (snd (runBackup (slow_ops 5000) sim_env Hourly (start sim_world))))
     = 36035250 \<and>
   shouldRunBackup (lastBackupTimes (snd (runBackup (slow_ops 5000) sim_env Hourly (start sim_world))))
     Hourly 36030250 = Inr False \<and>
   shouldRunBackup (lastBackupTimes (snd (runBackup (slow_ops 5000) sim_env Hourly (start sim_world))))
     Hourly 36035250 = Inr False \<and>
   shouldRunBackup (lastBackupTimes (snd (runBackup (slow_ops 5000) sim_env Hourly (start sim_world))))
     Hourly 39630249 = Inr False \<and>
   shouldRunBackup (lastBackupTimes (snd (runBackup (slow_ops 5000) sim_env Hourly (start sim_world))))
     Hourly 39630250 = Inr True"
proof -
  have h: "fst (runBackup_try (slow_ops 5000) sim_env Hourly
          (clock (slow_ops 5000) (world (start sim_world))) (start sim_world)) = Inr ()"
    by (simp add: model_defs sim_defs)
  have c: "clock (slow_ops 5000) (world (start sim_world)) = 36030250"
    by (simp add: sim_defs)
  have e: "clock (slow_ops 5000)
             (world (snd (runBackup (slow_ops 5000) sim_env Hourly (start sim_world)))) = 36035250"
    by (simp add: model_defs sim_defs)
  from due_measured_from_trigger_start [OF h] h e show ?thesis
    unfolding c by (simp add: duration_def)
qed

section \<open>Startup and single-shot mode\<close>



text \<open>
  C1, at a failing dump and at a failing upload. In single-shot mode with \<open>pg_dump\<close>
  failing, the one cycle is run, \<open>runBackup\<close> logs \<open>Backup failed\<close> and resolves, so
  \<open>tryBackup\<close> never reaches its \<open>process.exit(1)\<close> and \<open>main\<close> exits with code 0; the
  same with the upload rejected. The tick loop is not entered (no \<open>Sleep\<close>), whatever
  the fuel.
\<close>

theorem single_shot_exits_0_on_failure:
  "main sim_ops (sim_env\<lparr>SINGLE_SHOT_MODE := True\<rparr>) fuel
        (start (sim_world\<lparr>sim_fail_dump := True\<rparr>))
     = Exited 0
        \<lparr>world = sim_world\<lparr>sim_fail_dump := True\<rparr>,
         lastBackupTimes = Map.empty,
         trace = [Exec_pg_dump ''/tmp/backup-2026-11-02T10-00-00-000Z.tar.gz'',
                  Log_BackupFailed PgDumpError]\<rparr> \<and>
   main sim_ops (sim_env\<lparr>SINGLE_SHOT_MODE := True\<rparr>) fuel
        (start (sim_world\<lparr>sim_fail_put := True\<rparr>))
     = Exited 0
        \<lparr>world = sim_world\<lparr>sim_fail_put := True\<rparr>,
         lastBackupTimes = Map.empty,
         trace = [Exec_pg_dump ''/tmp/backup-2026-11-02T10-00-00-000Z.tar.gz'',
                  Exec_gzip_check ''/tmp/backup-2026-11-02T10-00-00-000Z.tar.gz'',
                  PutObject ''bkt'' ''db/10min/backup-2026-11-02T10-00-00-000Z.tar.gz''
                    ''/tmp/backup-2026-11-02T10-00-00-000Z.tar.gz'' None,
                  Log_BackupFailed UploadError]\<rparr>"
  by (simp add: model_defs sim_defs)

section \<open>Deleting the local file\<close>

text \<open>
  C3, as the code has it. When the dump and the upload (with its cleanup) have succeeded
  and deleting the local file fails, the rejection is caught by \<open>runBackup\<close> like any
  other: the trigger resolves and logs \<open>Backup failed\<close>, and no recorded time changes, so
  the run counts as failed.
\<close>

theorem failed_unlink_fails_the_run:
  assumes "dumpToFile ops (backup_filepath ops env (clock ops (world s))) s = (Inr (), s1)"
    and "uploadToS3 ops env (backup_filename ops env (clock ops (world s)))
           (backup_filepath ops env (clock ops (world s))) f s1 = (Inr (), s2)"
    and "deleteFile ops (backup_filepath ops env (clock ops (world s))) s2 = (Inl e, s3)"
  shows "runBackup ops env f s = (Inr (), emit (Log_BackupFailed UnlinkError) s3) \<and>
         e = UnlinkError \<and>
         lastBackupTimes (snd (runBackup ops env f s)) = lastBackupTimes s"
proof -
  have e: "e = UnlinkError"
    using assms(3) by (auto simp: deleteFile_def split: prod.splits if_splits)
  have t: "runBackup_try ops env f (clock ops (world s)) s = (Inl e, s3)"
    using assms by (simp add: runBackup_try_def andThen_def)
  from runBackup_failed [OF t] e show ?thesis by simp
qed

text \<open>
  C3 as stated fails: dump and upload succeed, the unlink fails, and no time is recorded
  for the frequency.
\<close>

theorem failed_unlink_counterexample:
  "fst (dumpToFile sim_ops ''/tmp/backup-2026-11-02T10-00-00-000Z.tar.gz''
          (start (sim_world\<lparr>sim_fail_unlink := True\<rparr>))) = Inr () \<and>
   fst (uploadToS3 sim_ops sim_env ''backup-2026-11-02T10-00-00-000Z.tar.gz''
          ''/tmp/backup-2026-11-02T10-00-00-000Z.tar.gz'' TenMin
          (snd (dumpToFile sim_ops ''/tmp/backup-2026-11-02T10-00-00-000Z.tar.gz''
             (start (sim_world\<lparr>sim_fail_unlink := True\<rparr>))))) = Inr () \<and>
   trace (snd (runBackup sim_ops sim_env TenMin (start (sim_world\<lparr>sim_fail_unlink := True\<rparr>))))
     = [Exec_pg_dump ''/tmp/backup-2026-11-02T10-00-00-000Z.tar.gz'',
        Exec_gzip_check ''/tmp/backup-2026-11-02T10-00-00-000Z.tar.gz'',
        PutObject ''bkt'' ''db/10min/backup-2026-11-02T10-00-00-000Z.tar.gz''
          ''/tmp/backup-2026-11-02T10-00-00-000Z.tar.gz'' None,
        ListObjects ''bkt'' ''db/10min/'',
        Unlink ''/tmp/backup-2026-11-02T10-00-00-000Z.tar.gz'',
        Log_BackupFailed UnlinkError] \<and>
   lastBackupTimes (snd (runBackup sim_ops sim_env TenMin
      (start (sim_world\<lparr>sim_fail_unlink := True\<rparr>)))) TenMin = None"
  by (simp add: model_defs sim_defs)

theorem failed_unlink_fails_the_run_witness:
  "lastBackupTimes (snd (runBackup sim_ops sim_env Daily
      (start (sim_world\<lparr>sim_fail_unlink := True\<rparr>))))
     = lastBackupTimes (start (sim_world\<lparr>sim_fail_unlink := True\<rparr>)) \<and>
   fst (deleteFile sim_ops ''/tmp/backup-2026-11-02T10-00-00-000Z.tar.gz''
      (snd (uploadToS3 sim_ops sim_env ''backup-2026-11-02T10-00-00-000Z.tar.gz''
          ''/tmp/backup-2026-11-02T10-00-00-000Z.tar.gz'' Daily
          (snd (dumpToFile sim_ops ''/tmp/backup-2026-11-02T10-00-00-000Z.tar.gz''
             (start (sim_world\<lparr>sim_fail_unlink := True\<rparr>))))))) = Inl UnlinkError"
proof -
  let ?s = "start (sim_world\<lparr>sim_fail_unlink := True\<rparr>)"
  let ?path = "backup_filepath sim_ops sim_env (clock sim_ops (world ?s))"
  let ?name = "backup_filename sim_ops sim_env (clock sim_ops (world ?s))"
  let ?s1 = "snd (dumpToFile sim_ops ?path ?s)"
  let ?s2 = "snd (uploadToS3 sim_ops sim_env ?name ?path Daily ?s1)"
  let ?s3 = "snd (deleteFile sim_ops ?path ?s2)"
  have p: "?path = ''/tmp/backup-2026-11-02T10-00-00-000Z.tar.gz''"
    and n: "?name = ''backup-2026-11-02T10-00-00-000Z.tar.gz''"
    by (simp_all add: model_defs sim_defs)
  have h1: "dumpToFile sim_ops ?path ?s = (Inr (), ?s1)"
    by (simp add: model_defs sim_defs)
  have h2: "uploadToS3 sim_ops sim_env ?name ?path Daily ?s1 = (Inr (), ?s2)"
    by (simp add: model_defs sim_defs)
  have h3: "deleteFile sim_ops ?path ?s2 = (Inl UnlinkError, ?s3)"
    by (simp add: model_defs sim_defs)
  from failed_unlink_fails_the_run [OF h1 h2 h3] h3 show ?thesis
    unfolding p n by (metis fst_conv)
qed

section \<open>The tick loop\<close>


lemma still_due_later:
  assumes "shouldRunBackup lbt f t = Inr True" and "t \<le> t'"
  shows "shouldRunBackup lbt f t' = Inr True"
  using assms by (auto simp: shouldRunBackup_eq split: option.splits)

text \<open>
  C8. Whatever is rejected inside a trigger, \<open>runBackup\<close> resolves, and so do the
  \<open>for\<close> loop, the tick and any number of ticks: no error reaches the loop. After an
  interval's check the loop goes on with the remaining intervals, and after a tick with
  the next tick. A trigger whose \<open>try\<close> block was rejected leaves \<open>lastBackupTimes\<close>
  as it was, so a frequency that was due at \<open>t\<close> is due at every later instant.
\<close>

theorem trigger_errors_stay_in_trigger:
  "fst (runBackup ops env f s) = Inr () \<and>
   fst (check_each ops env ivs s) = Inr () \<and>
   fst (tick ops env s) = Inr () \<and>
   fst (tick_loop ops env n s) = Inr () \<and>
   check_each ops env (interval # rest) s =
     check_each ops env rest (check_interval ops env (frequency interval) s) \<and>
   tick_loop ops env (Suc n) s = tick_loop ops env n (snd (tick ops env s)) \<and>
   (\<forall>e. fst (runBackup_try ops env f (clock ops (world s)) s) = Inl e \<longrightarrow>
      lastBackupTimes (snd (runBackup ops env f s)) = lastBackupTimes s \<and>
      (\<forall>t t'. shouldRunBackup (lastBackupTimes s) f t = Inr True \<and> t \<le> t' \<longrightarrow>
         shouldRunBackup (lastBackupTimes (snd (runBackup ops env f s))) f t' = Inr True))"
proof -
  have "lastBackupTimes (snd (runBackup ops env f s)) = lastBackupTimes s"
    if "fst (runBackup_try ops env f (clock ops (world s)) s) = Inl e" for e
    using that runBackup_failed(2) [of ops env f s e] by (metis prod.collapse)
  then show ?thesis
    by (auto simp: runBackup_resolves check_each_resolves tick_eq tick_loop_resolves
          check_each_Cons tick_loop_Suc simp del: check_each.simps(2) tick_loop.simps(2)
          intro: still_due_later)
qed

theorem trigger_errors_stay_in_trigger_witness:
  "fst (runBackup_try sim_ops sim_env Weekly
          (clock sim_ops (world (start (sim_world\<lparr>sim_fail_gzip := True\<rparr>))))
          (start (sim_world\<lparr>sim_fail_gzip := True\<rparr>))) = Inl InvalidArchive \<and>
   fst (runBackup sim_ops sim_env Weekly (start (sim_world\<lparr>sim_fail_gzip := True\<rparr>))) = Inr () \<and>
   lastBackupTimes (snd (runBackup sim_ops sim_env Weekly
      (start (sim_world\<lparr>sim_fail_gzip := True\<rparr>)))) = Map.empty \<and>
   shouldRunBackup (lastBackupTimes (snd (runBackup sim_ops sim_env Weekly
      (start (sim_world\<lparr>sim_fail_gzip := True\<rparr>))))) Weekly 36120000 = Inr True"
proof -
  let ?s = "start (sim_world\<lparr>sim_fail_gzip := True\<rparr>)"
  have h: "fst (runBackup_try sim_ops sim_env Weekly (clock sim_ops (world ?s)) ?s)
             = Inl InvalidArchive"
    by (simp add: model_defs sim_defs)
  have d: "shouldRunBackup (lastBackupTimes ?s) Weekly 36060000 = Inr True \<and>
           (36060000::int) \<le> 36120000"
    by (simp add: shouldRunBackup_eq sim_defs)
  have l: "lastBackupTimes ?s = Map.empty" by (simp add: sim_defs)
  from trigger_errors_stay_in_trigger [of sim_ops sim_env Weekly ?s] h d l
  show ?thesis by metis
qed


section \<open>Retention cleanup\<close>








section \<open>Seeding\<close>

lemma startBackupScheduler_seeds:
  "lastBackupTimes (snd (startBackupScheduler ops env 0 s)) =
     lastBackupTimes s ++ fst (getLastBackupTimes ops (AWS_S3_BUCKET env) (bucket_prefix env) s)"
proof -
  have frame: "lastBackupTimes (snd (seed_each ops b pfx ivs result s)) = lastBackupTimes s"
    for b pfx ivs result and s :: "'a state"
  proof (induction ivs arbitrary: result s)
    case Nil
    show ?case by simp
  next
    case (Cons interval rest)
    let ?p = "pfx @ frequency_name (frequency interval) @ ''/''"
    obtain answer s1 where c: "call (ListObjects b ?p) (s3_list ops b ?p) s = (answer, s1)"
      by (cases "call (ListObjects b ?p) (s3_list ops b ?p) s")
    with Cons.IH call_lbt [OF c] show ?case
      by (simp split: option.splits)
  qed
  show ?thesis
    by (simp add: startBackupScheduler_def getLastBackupTimes_def frame split: prod.splits)
      (metis frame snd_conv fst_conv)
qed

text \<open>
  C5. Let the store answer the listing of each frequency's prefix with \<open>listing f\<close>,
  whatever its state. Then \<open>getLastBackupTimes\<close> records, for a frequency whose listing
  is not empty and whose objects all carry a last-modified time, the maximum of these
  times, wherever in the listing it stands; and it records nothing for a frequency whose
  listing is rejected, has no \<open>Contents\<close> or is empty. \<open>startBackupScheduler\<close> copies what
  was recorded into \<open>lastBackupTimes\<close> and leaves the other entries as they were.
\<close>

theorem seeding_takes_newest:
  assumes "\<forall>f w. fst (s3_list ops (AWS_S3_BUCKET env)
                      (bucket_prefix env @ frequency_name f @ ''/'') w) = listing f"
  shows "(\<forall>f contents.
            listing f = Some (Some contents) \<and> contents \<noteq> [] \<and>
            (\<forall>obj \<in> set contents. LastModified obj \<noteq> None) \<longrightarrow>
            fst (getLastBackupTimes ops (AWS_S3_BUCKET env) (bucket_prefix env) s) f
              = Some (Max (lm_time ` set contents)) \<and>
            lastBackupTimes (snd (startBackupScheduler ops env 0 s)) f
              = Some (Max (lm_time ` set contents))) \<and>
         (\<forall>f. listing f = None \<or> listing f = Some None \<or> listing f = Some (Some []) \<longrightarrow>
            fst (getLastBackupTimes ops (AWS_S3_BUCKET env) (bucket_prefix env) s) f = None \<and>
            lastBackupTimes (snd (startBackupScheduler ops env 0 s)) f = lastBackupTimes s f)"
proof -
  have r: "fst (getLastBackupTimes ops (AWS_S3_BUCKET env) (bucket_prefix env) s) f
             = seeded (listing f)" for f
    using assms by (intro getLastBackupTimes_result) simp
  have known: "seeded (listing f) = Some (Max (lm_time ` set contents))"
    if "listing f = Some (Some contents)" "contents \<noteq> []"
       "\<forall>obj \<in> set contents. LastModified obj \<noteq> None" for f contents
    using that by (simp add: seeded_def newest_LastModified_max)
  have unknown: "seeded (listing f) = None"
    if "listing f = None \<or> listing f = Some None \<or> listing f = Some (Some [])" for f
    using that by (auto simp: seeded_def newest_LastModified_empty)
  show ?thesis
  proof (intro conjI allI impI)
    fix f contents
    assume a: "listing f = Some (Some contents) \<and> contents \<noteq> [] \<and>
      (\<forall>obj \<in> set contents. LastModified obj \<noteq> None)"
    then have k: "seeded (listing f) = Some (Max (lm_time ` set contents))"
      using known by blast
    then show "fst (getLastBackupTimes ops (AWS_S3_BUCKET env) (bucket_prefix env) s) f
              = Some (Max (lm_time ` set contents))"
      by (simp add: r)
    from k show "lastBackupTimes (snd (startBackupScheduler ops env 0 s)) f
              = Some (Max (lm_time ` set contents))"
      by (simp add: r startBackupScheduler_seeds map_add_def)
  next
    fix f
    assume "listing f = None \<or> listing f = Some None \<or> listing f = Some (Some [])"
    then have u: "seeded (listing f) = None" by (rule unknown)
    then show "fst (getLastBackupTimes ops (AWS_S3_BUCKET env) (bucket_prefix env) s) f = None"
      by (simp add: r)
    from u show "lastBackupTimes (snd (startBackupScheduler ops env 0 s)) f = lastBackupTimes s f"
      by (simp add: r startBackupScheduler_seeds map_add_def)
  qed
qed

theorem seeding_takes_newest_witness:
  "fst (getLastBackupTimes fixed_ops ''bkt'' ''db/'' (start sim_world)) Weekly = Some 300 \<and>
   fst (getLastBackupTimes fixed_ops ''bkt'' ''db/'' (start sim_world)) Daily = None \<and>
   fst (getLastBackupTimes fixed_ops ''bkt'' ''db/'' (start sim_world)) Hourly = None \<and>
   fst (getLastBackupTimes fixed_ops ''bkt'' ''db/'' (start sim_world)) TenMin = None \<and>
   lastBackupTimes (snd (startBackupScheduler fixed_ops sim_env 0 (start sim_world))) Weekly
     = Some 300"
proof -
  have b: "AWS_S3_BUCKET sim_env = ''bkt''" and p: "bucket_prefix sim_env = ''db/''"
    by (simp_all add: sim_defs bucket_prefix_def)
  have h: "\<forall>f w. fst (s3_list fixed_ops (AWS_S3_BUCKET sim_env)
                      (bucket_prefix sim_env @ frequency_name f @ ''/'') w) = fixed_listing f"
  proof (intro allI)
    fix f w
    show "fst (s3_list fixed_ops (AWS_S3_BUCKET sim_env)
                 (bucket_prefix sim_env @ frequency_name f @ ''/'') w) = fixed_listing f"
      unfolding b p by (cases f) (simp_all add: fixed_ops_def)
  qed
  have w: "fixed_listing Weekly = Some (Some [\<lparr>Key = Some ''db/weekly/q'', LastModified = Some 200\<rparr>,
                               \<lparr>Key = Some ''db/weekly/r'', LastModified = Some 300\<rparr>,
                               \<lparr>Key = Some ''db/weekly/p'', LastModified = Some 100\<rparr>])"
    and d: "fixed_listing Daily = None" and hr: "fixed_listing Hourly = Some None"
    and t: "fixed_listing TenMin = Some (Some [])"
    by (simp_all add: fixed_listing_def)
  note inst = seeding_takes_newest [OF h, of "start sim_world", unfolded b p]
  from inst w have
    "fst (getLastBackupTimes fixed_ops ''bkt'' ''db/'' (start sim_world)) Weekly
       = Some (Max (lm_time ` set [\<lparr>Key = Some ''db/weekly/q'', LastModified = Some 200\<rparr>,
                               \<lparr>Key = Some ''db/weekly/r'', LastModified = Some 300\<rparr>,
                               \<lparr>Key = Some ''db/weekly/p'', LastModified = Some 100\<rparr>])) \<and>
     lastBackupTimes (snd (startBackupScheduler fixed_ops sim_env 0 (start sim_world))) Weekly
       = Some (Max (lm_time ` set [\<lparr>Key = Some ''db/weekly/q'', LastModified = Some 200\<rparr>,
                               \<lparr>Key = Some ''db/weekly/r'', LastModified = Some 300\<rparr>,
                               \<lparr>Key = Some ''db/weekly/p'', LastModified = Some 100\<rparr>]))"
    by (elim conjE allE [of _ Weekly]) force
  moreover from inst d hr t have
    "fst (getLastBackupTimes fixed_ops ''bkt'' ''db/'' (start sim_world)) Daily = None"
    "fst (getLastBackupTimes fixed_ops ''bkt'' ''db/'' (start sim_world)) Hourly = None"
    "fst (getLastBackupTimes fixed_ops ''bkt'' ''db/'' (start sim_world)) TenMin = None"
    by blast+
  ultimately show ?thesis by (simp add: lm_time_def)
qed

section \<open>The startup cycle\<close>





end
